theory Spec2Isabelle
  imports Complex_Main
begin

section \<open>Data model\<close>

text \<open>
  Coordinates are C++ \<open>double\<close>s in the source. The operations used here on them are the
  two order comparisons of the containment test and, for the midpoint split, one
  subtraction, one addition and one halving; they are modelled on \<open>real\<close>. The order of
  the finite doubles is the order of the reals they denote, so the comparisons of the
  descent agree with the source's; NaN is not modelled, and the arithmetic of the split
  is the exact one of the spec's formulas, without rounding.

  A range is mlpack's \<open>math::Range\<close> (a \<open>lo\<close> and a \<open>hi\<close>), a bound (\<open>HRectBound\<close>) is one
  range per dimension, a dataset is a matrix whose columns are the points.
\<close>

datatype RangeType = RangeType (Lo: real) (Hi: real)

type_synonym HRectBound = "RangeType list"

type_synonym Mat = "real list list"

datatype AuxiliaryInformation = AuxiliaryInformation (OuterBound: HRectBound)

datatype TreeType =
  TreeType (Bound: HRectBound) (AuxiliaryInfo: AuxiliaryInformation)
           (children: "TreeType list") (Dataset: Mat)

definition NumChildren :: "TreeType \<Rightarrow> nat" where
  "NumChildren node = length (children node)"

text \<open>\<open>Child\<close> is only ever called below the guard \<open>bestIndex < NumChildren\<close> of the loop.\<close>

definition Child :: "TreeType \<Rightarrow> nat \<Rightarrow> TreeType" where
  "Child node i = children node ! i"

datatype error = AssertionFailed | IndexOutOfBounds

text \<open>
  Modelled from the spec: the dataset abstraction (an Armadillo matrix, not part of this
  repository) is "immutable, column-indexed, fixed dimensionality", and the point handed to
  the descent heuristic is "a point index valid in the node's dataset". \<open>col\<close> reads column
  \<open>point\<close>; an index that is not valid has no column, which the caller turns into the
  error \<open>IndexOutOfBounds\<close> (the bounds check of the matrix library).
\<close>

definition col :: "Mat \<Rightarrow> nat \<Rightarrow> real list option" where
  "col data point = (if point < length data then Some (data ! point) else None)"

text \<open>
  Modelled from the spec: \<open>HRectBound::Contains\<close> is declared in \<open>hrectbound.hpp\<close>, which is
  not among the sources. The spec's containment test is: for every dimension \<open>d\<close>,
  \<open>min_d <= point_d <= max_d\<close> (closed interval). The dimensionality is fixed per
  dataset, so bound and point have one range and one coordinate per dimension; a vector
  of another dimensionality is not contained.
\<close>

definition Contains :: "HRectBound \<Rightarrow> real list \<Rightarrow> bool" where
  "Contains bound point = list_all2 (\<lambda>r x. Lo r \<le> x \<and> x \<le> Hi r) bound point"

text \<open>
  The C++ \<open>assert\<close> macro: with \<open>NDEBUG\<close> defined the macro expands to nothing and
  execution continues with the next statement; without it a false condition aborts the
  program. The build mode is the first argument of every function that asserts.
\<close>

definition cpp_assert :: "bool \<Rightarrow> bool \<Rightarrow> error + unit" where
  "cpp_assert ndebug cond = (if ndebug \<or> cond then Inr () else Inl AssertionFailed)"

section \<open>RPlusPlusTreeDescentHeuristic\<close>

text \<open>
  \<open>ChooseDescentNode(TreeType* node, const size_t point)\<close>. The node is passed by
  non-const pointer, so the model returns the node after the call beside the result.
  The \<open>for\<close> loop is the recursion on \<open>bestIndex\<close>; it stops at \<open>NumChildren\<close>.
\<close>

function ChooseDescentNode_loop ::
  "bool \<Rightarrow> TreeType \<Rightarrow> nat \<Rightarrow> nat \<Rightarrow> (error + nat) \<times> TreeType" where
  "ChooseDescentNode_loop ndebug node point bestIndex =
     (if bestIndex < NumChildren node then
        (case col (Dataset node) point of
           None \<Rightarrow> (Inl IndexOutOfBounds, node)
         | Some v \<Rightarrow>
             if Contains (OuterBound (AuxiliaryInfo (Child node bestIndex))) v
             then (Inr bestIndex, node)
             else ChooseDescentNode_loop ndebug node point (bestIndex + 1))
      else
        (case cpp_assert ndebug False of
           Inl e \<Rightarrow> (Inl e, node)
         | Inr _ \<Rightarrow> (Inr 0, node)))"
  by pat_completeness auto
termination
  by (relation "measure (\<lambda>(ndebug, node, point, bestIndex). NumChildren node - bestIndex)") auto

definition ChooseDescentNode :: "bool \<Rightarrow> TreeType \<Rightarrow> nat \<Rightarrow> (error + nat) \<times> TreeType" where
  "ChooseDescentNode ndebug node point = ChooseDescentNode_loop ndebug node point 0"

text \<open>
  \<open>ChooseDescentNode(const TreeType* /* node */, const TreeType* /* insertedNode */)\<close>:
  both parameters are unnamed in the source, the body is the assertion and \<open>return 0\<close>.
\<close>

definition ChooseDescentNode_subtree ::
  "bool \<Rightarrow> TreeType \<Rightarrow> TreeType \<Rightarrow> error + nat" where
  "ChooseDescentNode_subtree ndebug node insertedNode =
     (case cpp_assert ndebug False of
        Inl e \<Rightarrow> Inl e
      | Inr _ \<Rightarrow> Inr 0)"

text \<open>The outer bound of child \<open>i\<close>, as the loop reads it.\<close>

definition ChildOuterBound :: "TreeType \<Rightarrow> nat \<Rightarrow> HRectBound" where
  "ChildOuterBound node i = OuterBound (AuxiliaryInfo (Child node i))"

section \<open>MidpointSpaceSplit\<close>

text \<open>
  \<open>midpoint_space_split.hpp\<close> declares
  \<open>static bool SplitSpace(const BoundType& bound, const MatType& data,
  const arma::Col<size_t>& points, HyperplaneType& hyp)\<close>; its body
  (\<open>midpoint_space_split_impl.hpp\<close>) and the hyperplane type (\<open>hyperplane.hpp\<close>) are not
  among the sources.
\<close>

text \<open>
  Modelled from the spec: the hyperplane type of \<open>hyperplane.hpp\<close> is missing. For the
  midpoint strategy a hyperplane is "a direction (one dimension index ...) plus a split
  value".
\<close>

datatype Hyperplane = Hyperplane (splitDim: nat) (splitVal: real)

text \<open>
  Modelled from the spec: the per-dimension extent \<open>max_d - min_d\<close> of a bound and the
  midpoint \<open>(min_d + max_d) / 2\<close> of a dimension's extent; the missing part is the range
  type's width and midpoint.
\<close>

definition extent :: "RangeType \<Rightarrow> real" where
  "extent r = Hi r - Lo r"

definition midpoint :: "RangeType \<Rightarrow> real" where
  "midpoint r = (Lo r + Hi r) / 2"

text \<open>
  Modelled from the spec: the body of \<open>SplitSpace\<close> is missing, and with it the dimension
  selection. The policy is \<open>argmax_d (max_d - min_d)\<close> over the bound's per-dimension
  extents, and on a tie the lowest dimension index wins: \<open>widest\<close> is the first dimension
  whose extent no dimension exceeds. A bound without dimensions has none.
\<close>

definition widest :: "HRectBound \<Rightarrow> nat option" where
  "widest b = find (\<lambda>d. list_all (\<lambda>r. extent r \<le> extent (b ! d)) b) [0..<length b]"

text \<open>
  The four objects the call refers to. The first three are \<open>const\<close> references in the
  declaration, \<open>hyp\<close> is the output parameter.
\<close>

record SplitSpaceArgs =
  arg_bound :: HRectBound
  arg_data :: Mat
  arg_points :: "nat list"
  arg_hyp :: Hyperplane

text \<open>
  Modelled from the spec: the body of \<open>SplitSpace\<close> (\<open>midpoint_space_split_impl.hpp\<close>) is
  missing. The spec: choose the widest dimension; if the bound's widest extent is zero
  return \<open>false\<close> and leave the hyperplane output unspecified (here: as it was; nothing is
  proved about it); otherwise the result is a hyperplane keyed to the chosen dimension
  and to the midpoint of that dimension's extent in the bound, and \<open>true\<close>. The dataset
  and the point indices do not enter the computation. The model returns the flag and
  the four objects as they are after the call.
\<close>

definition SplitSpace :: "SplitSpaceArgs \<Rightarrow> bool \<times> SplitSpaceArgs" where
  "SplitSpace a =
     (case widest (arg_bound a) of
        None \<Rightarrow> (False, a)
      | Some d \<Rightarrow>
          if extent (arg_bound a ! d) = 0 then (False, a)
          else (True, a\<lparr>arg_hyp := Hyperplane d (midpoint (arg_bound a ! d))\<rparr>))"

section \<open>Example trees and bounds\<close>

text \<open>A childless node with the given outer bound, and a two-dimensional dataset of three points.\<close>

definition leaf :: "HRectBound \<Rightarrow> Mat \<Rightarrow> TreeType" where
  "leaf ob ds = TreeType ob (AuxiliaryInformation ob) [] ds"

definition points2d :: Mat where
  "points2d = [[1, 1], [7, 3], [4, 9]]"

text \<open>
  Three children; the outer bounds of the second and third overlap, and the point
  \<open>(4, 9)\<close> lies in none of the three.
\<close>

definition overlapNode :: TreeType where
  "overlapNode =
     TreeType [RangeType 0 8, RangeType 0 6] (AuxiliaryInformation [RangeType 0 8, RangeType 0 6])
       [leaf [RangeType 0 2, RangeType 5 6] points2d,
        leaf [RangeType 0 2, RangeType 0 2] points2d,
        leaf [RangeType 0 5, RangeType 0 5] points2d]
       points2d"

text \<open>
  Two children with disjoint outer bounds; the node's own bound is the second child's
  outer bound, so every point of it lies in exactly one child.
\<close>

definition disjointNode :: TreeType where
  "disjointNode =
     TreeType [RangeType 5 8, RangeType 0 6] (AuxiliaryInformation [RangeType 0 8, RangeType 0 6])
       [leaf [RangeType 0 2, RangeType 0 2] points2d,
        leaf [RangeType 5 8, RangeType 0 6] points2d]
       points2d"

text \<open>The same outer bounds as \<open>disjointNode\<close> around another dataset and other primary bounds.\<close>

definition disjointNode' :: TreeType where
  "disjointNode' =
     TreeType [RangeType 0 1, RangeType 0 1] (AuxiliaryInformation [])
       [TreeType [] (AuxiliaryInformation [RangeType 0 2, RangeType 0 2]) [] [],
        TreeType [] (AuxiliaryInformation [RangeType 5 8, RangeType 0 6]) [leaf [] []] []]
       [[0, 0], [0, 0], [0, 0], [7, 3]]"

text \<open>
  A node whose region \<open>[0,10] x [0,2]\<close> is cut at 5 into the outer bounds of two children.
  The closed boxes share the face at 5: the points \<open>(2, 1)\<close> and \<open>(7, 1)\<close> lie in exactly
  one of them, the point \<open>(5, 1)\<close> in both.
\<close>

definition cutPoints :: Mat where
  "cutPoints = [[2, 1], [7, 1], [5, 1]]"

definition cutNode :: TreeType where
  "cutNode =
     TreeType [RangeType 0 10, RangeType 0 2] (AuxiliaryInformation [RangeType 0 10, RangeType 0 2])
       [leaf [RangeType 0 5, RangeType 0 2] cutPoints,
        leaf [RangeType 5 10, RangeType 0 2] cutPoints]
       cutPoints"

definition emptyNode :: TreeType where
  "emptyNode = leaf [RangeType 0 8, RangeType 0 6] points2d"

definition points3d :: Mat where
  "points3d = [[1, 1, 1], [9, 2, 4]]"

text \<open>A call whose output parameter holds some earlier hyperplane.\<close>

definition splitArgs :: "HRectBound \<Rightarrow> Mat \<Rightarrow> nat list \<Rightarrow> SplitSpaceArgs" where
  "splitArgs b ds ps = \<lparr>arg_bound = b, arg_data = ds, arg_points = ps, arg_hyp = Hyperplane 7 0\<rparr>"

section \<open>Properties of the descent loop\<close>

declare ChooseDescentNode_loop.simps [simp del]

lemma ChooseDescentNode_loop_node:
  "snd (ChooseDescentNode_loop ndebug node point bestIndex) = node"
proof (induction ndebug node point bestIndex rule: ChooseDescentNode_loop.induct)
  case (1 ndebug node point bestIndex)
  show ?case
  proof (cases "bestIndex < NumChildren node")
    case False
    then show ?thesis
      by (subst ChooseDescentNode_loop.simps) (simp split: sum.splits)
  next
    case inside: True
    show ?thesis
    proof (cases "col (Dataset node) point")
      case None
      with inside show ?thesis
        by (subst ChooseDescentNode_loop.simps) simp
    next
      case (Some v)
      with inside "1.IH" [of v] show ?thesis
        by (subst ChooseDescentNode_loop.simps) simp
    qed
  qed
qed

lemma ChooseDescentNode_loop_found:
  assumes "col (Dataset node) point = Some v"
    and "k \<le> i" and "i < NumChildren node"
    and "Contains (ChildOuterBound node i) v"
    and "\<forall>j. k \<le> j \<and> j < i \<longrightarrow> \<not> Contains (ChildOuterBound node j) v"
  shows "ChooseDescentNode_loop ndebug node point k = (Inr i, node)"
  using assms
proof (induction "i - k" arbitrary: k)
  case 0
  then have "k = i" by simp
  with 0 show ?case
    by (subst ChooseDescentNode_loop.simps) (simp add: ChildOuterBound_def)
next
  case (Suc n)
  then have lt: "k < i" and miss: "\<not> Contains (ChildOuterBound node k) v"
    by auto
  from Suc have "ChooseDescentNode_loop ndebug node point (k + 1) = (Inr i, node)"
    by (intro Suc.hyps(1)) auto
  with lt miss Suc.prems show ?case
    by (subst ChooseDescentNode_loop.simps) (simp add: ChildOuterBound_def)
qed

lemma ChooseDescentNode_loop_fall_through:
  assumes "\<forall>j. k \<le> j \<and> j < NumChildren node \<longrightarrow>
             (\<exists>v. col (Dataset node) point = Some v \<and> \<not> Contains (ChildOuterBound node j) v)"
  shows "ChooseDescentNode_loop ndebug node point k =
           (if ndebug then (Inr 0, node) else (Inl AssertionFailed, node))"
  using assms
proof (induction "NumChildren node - k" arbitrary: k)
  case 0
  then have "\<not> k < NumChildren node" by simp
  then show ?case
    by (subst ChooseDescentNode_loop.simps) (simp add: cpp_assert_def)
next
  case (Suc n)
  then have inside: "k < NumChildren node" by simp
  with Suc.prems obtain v where v: "col (Dataset node) point = Some v"
    and miss: "\<not> Contains (ChildOuterBound node k) v"
    by (metis order_refl)
  from Suc have "ChooseDescentNode_loop ndebug node point (k + 1) =
      (if ndebug then (Inr 0, node) else (Inl AssertionFailed, node))"
    by (intro Suc.hyps(1)) auto
  with inside v miss show ?case
    by (subst ChooseDescentNode_loop.simps) (simp add: ChildOuterBound_def)
qed

lemma ChooseDescentNode_loop_reads:
  assumes "map (\<lambda>c. OuterBound (AuxiliaryInfo c)) (children node) =
           map (\<lambda>c. OuterBound (AuxiliaryInfo c)) (children node')"
    and "col (Dataset node) point = col (Dataset node') point'"
  shows "fst (ChooseDescentNode_loop ndebug node point k) =
         fst (ChooseDescentNode_loop ndebug node' point' k)"
proof -
  from assms(1) have len: "NumChildren node = NumChildren node'"
    unfolding NumChildren_def by (metis length_map)
  have outer: "ChildOuterBound node j = ChildOuterBound node' j" if "j < NumChildren node" for j
  proof -
    have "map (\<lambda>c. OuterBound (AuxiliaryInfo c)) (children node) ! j =
          map (\<lambda>c. OuterBound (AuxiliaryInfo c)) (children node') ! j"
      using assms(1) by simp
    with that len show ?thesis
      by (simp add: ChildOuterBound_def Child_def NumChildren_def)
  qed
  show ?thesis
  proof (induction "NumChildren node - k" arbitrary: k)
    case 0
    then have "\<not> k < NumChildren node" by simp
    with len show ?case
      by (subst (1 2) ChooseDescentNode_loop.simps) (simp split: sum.splits)
  next
    case (Suc n)
    then have inside: "k < NumChildren node" by simp
    from Suc have IH: "fst (ChooseDescentNode_loop ndebug node point (k + 1)) =
        fst (ChooseDescentNode_loop ndebug node' point' (k + 1))"
      by (intro Suc.hyps(1)) auto
    from inside len assms(2) outer [OF inside] IH show ?case
      by (subst (1 2) ChooseDescentNode_loop.simps)
         (simp add: ChildOuterBound_def split: option.splits)
  qed
qed

lemma Contains_closed_intervals:
  "Contains bound v \<longleftrightarrow>
     length bound = length v \<and> (\<forall>d<length v. Lo (bound ! d) \<le> v ! d \<and> v ! d \<le> Hi (bound ! d))"
  unfolding Contains_def list_all2_conv_all_nth by auto

section \<open>Properties of the widest dimension\<close>

lemma widest_Some_iff:
  "widest b = Some d \<longleftrightarrow>
     d < length b \<and>
     (\<forall>d'<length b. extent (b ! d') \<le> extent (b ! d)) \<and>
     (\<forall>d'<d. extent (b ! d') < extent (b ! d))"
proof
  assume "widest b = Some d"
  then obtain i where i: "i < length b" "d = i"
    and top: "list_all (\<lambda>r. extent r \<le> extent (b ! i)) b"
    and first: "\<forall>j<i. \<not> list_all (\<lambda>r. extent r \<le> extent (b ! j)) b"
    unfolding widest_def find_Some_iff by auto
  from top have le: "\<forall>d'<length b. extent (b ! d') \<le> extent (b ! d)"
    using i by (simp add: list_all_length)
  have "extent (b ! j) < extent (b ! d)" if "j < d" for j
  proof -
    from that first i obtain d' where "d' < length b" "\<not> extent (b ! d') \<le> extent (b ! j)"
      by (auto simp add: list_all_length)
    with le show ?thesis by (metis less_le_trans not_le)
  qed
  with le i show "d < length b \<and>
     (\<forall>d'<length b. extent (b ! d') \<le> extent (b ! d)) \<and>
     (\<forall>d'<d. extent (b ! d') < extent (b ! d))"
    by simp
next
  assume r: "d < length b \<and>
     (\<forall>d'<length b. extent (b ! d') \<le> extent (b ! d)) \<and>
     (\<forall>d'<d. extent (b ! d') < extent (b ! d))"
  then have "list_all (\<lambda>r. extent r \<le> extent (b ! d)) b"
    by (simp add: list_all_length)
  moreover have "\<not> list_all (\<lambda>r. extent r \<le> extent (b ! j)) b" if "j < d" for j
    using r that by (auto simp add: list_all_length not_le)
  ultimately show "widest b = Some d"
    unfolding widest_def find_Some_iff using r by auto
qed

lemma widest_exists:
  assumes "b \<noteq> []"
  shows "\<exists>d. widest b = Some d"
proof -
  have "Max (extent ` set b) \<in> extent ` set b"
    using assms by (intro Max_in) auto
  then obtain d where d: "d < length b" "extent (b ! d) = Max (extent ` set b)"
    by (auto simp add: in_set_conv_nth)
  have "list_all (\<lambda>r. extent r \<le> extent (b ! d)) b"
    using d(2) by (simp add: list_all_iff)
  with d(1) have "widest b \<noteq> None"
    unfolding widest_def find_None_iff by auto
  then show ?thesis by auto
qed

lemma SplitSpace_success:
  assumes "widest (arg_bound a) = Some d" and "extent (arg_bound a ! d) \<noteq> 0"
  shows "SplitSpace a =
           (True, a\<lparr>arg_hyp := Hyperplane d ((Lo (arg_bound a ! d) + Hi (arg_bound a ! d)) / 2)\<rparr>)"
  using assms by (simp add: SplitSpace_def midpoint_def)

section \<open>The example trees, evaluated\<close>

lemma less_2_cases: "i < (2::nat) \<longleftrightarrow> i = 0 \<or> i = Suc 0"
  by auto

lemma less_3_cases: "i < (3::nat) \<longleftrightarrow> i = 0 \<or> i = Suc 0 \<or> i = 2"
  by auto

lemma disjointNode_eval:
  "NumChildren disjointNode = 2"
  "col (Dataset disjointNode) (Suc 0) = Some [7, 3]"
  "ChildOuterBound disjointNode 0 = [RangeType 0 2, RangeType 0 2]"
  "ChildOuterBound disjointNode (Suc 0) = [RangeType 5 8, RangeType 0 6]"
  "Bound disjointNode = [RangeType 5 8, RangeType 0 6]"
  by (simp_all add: disjointNode_def NumChildren_def col_def points2d_def ChildOuterBound_def Child_def leaf_def)

lemma overlapNode_eval:
  "NumChildren overlapNode = 3"
  "col (Dataset overlapNode) 0 = Some [1, 1]"
  "col (Dataset overlapNode) 2 = Some [4, 9]"
  "ChildOuterBound overlapNode 0 = [RangeType 0 2, RangeType 5 6]"
  "ChildOuterBound overlapNode (Suc 0) = [RangeType 0 2, RangeType 0 2]"
  "ChildOuterBound overlapNode 2 = [RangeType 0 5, RangeType 0 5]"
  by (simp_all add: overlapNode_def NumChildren_def col_def points2d_def ChildOuterBound_def
        Child_def leaf_def)

lemma cutNode_eval:
  "NumChildren cutNode = 2"
  "col (Dataset cutNode) 0 = Some [2, 1]"
  "col (Dataset cutNode) (Suc 0) = Some [7, 1]"
  "Bound cutNode = [RangeType 0 10, RangeType 0 2]"
  "ChildOuterBound cutNode 0 = [RangeType 0 5, RangeType 0 2]"
  "ChildOuterBound cutNode (Suc 0) = [RangeType 5 10, RangeType 0 2]"
  by (simp_all add: cutNode_def NumChildren_def col_def cutPoints_def ChildOuterBound_def
        Child_def leaf_def)

section \<open>Descent: which child is chosen\<close>

text \<open>
  Claim C1 (descent coverage). The partition invariant is the one the caller guarantees
  for the point being routed: exactly one child's outer bound contains the point. For
  every node, every valid point whose coordinates lie inside the node's bound and for
  which the invariant holds, \<open>ChooseDescentNode\<close> returns, in either build mode, an index
  \<open>i\<close> below \<open>NumChildren\<close> such that the outer bound of child \<open>i\<close> contains the point and
  the outer bound of no other child does.
\<close>

theorem ChooseDescentNode_partition_unique_child:
  assumes "col (Dataset node) point = Some v"
    and "Contains (Bound node) v"
    and "\<exists>!i. i < NumChildren node \<and> Contains (ChildOuterBound node i) v"
  shows "\<exists>i<NumChildren node.
           fst (ChooseDescentNode ndebug node point) = Inr i \<and>
           Contains (ChildOuterBound node i) v \<and>
           (\<forall>j<NumChildren node. j \<noteq> i \<longrightarrow> \<not> Contains (ChildOuterBound node j) v)"
proof -
  from assms(3) obtain i where i: "i < NumChildren node" "Contains (ChildOuterBound node i) v"
    and uniq: "\<And>j. j < NumChildren node \<Longrightarrow> Contains (ChildOuterBound node j) v \<Longrightarrow> j = i"
    by blast
  have "\<forall>j. 0 \<le> j \<and> j < i \<longrightarrow> \<not> Contains (ChildOuterBound node j) v"
    using uniq i(1) by (metis less_trans less_irrefl)
  with assms(1) i have "ChooseDescentNode_loop ndebug node point 0 = (Inr i, node)"
    by (intro ChooseDescentNode_loop_found) auto
  then have "fst (ChooseDescentNode ndebug node point) = Inr i"
    by (simp add: ChooseDescentNode_def)
  with i uniq show ?thesis by blast
qed

text \<open>
  The hypotheses hold in \<open>cutNode\<close> for both of its points off the cut: \<open>(2, 1)\<close> is routed
  to child 0 and \<open>(7, 1)\<close> to child 1, each into the only outer bound that contains it.
\<close>

theorem ChooseDescentNode_partition_unique_child_witness:
  "fst (ChooseDescentNode False cutNode 0) = Inr 0 \<and>
   Contains (ChildOuterBound cutNode 0) [2, 1] \<and>
   \<not> Contains (ChildOuterBound cutNode 1) [2, 1] \<and>
   fst (ChooseDescentNode False cutNode 1) = Inr 1 \<and>
   Contains (ChildOuterBound cutNode 1) [7, 1] \<and>
   \<not> Contains (ChildOuterBound cutNode 0) [7, 1]"
proof -
  have left: "Contains (ChildOuterBound cutNode 0) [2, 1]"
    "\<not> Contains (ChildOuterBound cutNode 1) [2, 1]"
    and right: "Contains (ChildOuterBound cutNode 1) [7, 1]"
    "\<not> Contains (ChildOuterBound cutNode 0) [7, 1]"
    by (simp_all add: cutNode_eval Contains_def)
  have pt0: "col (Dataset cutNode) 0 = Some [2, 1]"
    and pt1: "col (Dataset cutNode) 1 = Some [7, 1]"
    by (simp_all add: cutNode_eval)
  have in0: "Contains (Bound cutNode) [2, 1]"
    and in1: "Contains (Bound cutNode) [7, 1]"
    by (simp_all add: cutNode_eval Contains_def)
  have one0: "\<exists>!i. i < NumChildren cutNode \<and> Contains (ChildOuterBound cutNode i) [2, 1]"
  proof (rule ex1I [of _ 0])
    show "0 < NumChildren cutNode \<and> Contains (ChildOuterBound cutNode 0) [2, 1]"
      using left(1) by (simp add: cutNode_eval)
  next
    fix i assume "i < NumChildren cutNode \<and> Contains (ChildOuterBound cutNode i) [2, 1]"
    with left(2) show "i = 0"
      by (cases "i = 1") (auto simp add: cutNode_eval)
  qed
  have one1: "\<exists>!i. i < NumChildren cutNode \<and> Contains (ChildOuterBound cutNode i) [7, 1]"
  proof (rule ex1I [of _ 1])
    show "1 < NumChildren cutNode \<and> Contains (ChildOuterBound cutNode 1) [7, 1]"
      using right(1) by (simp add: cutNode_eval)
  next
    fix i assume "i < NumChildren cutNode \<and> Contains (ChildOuterBound cutNode i) [7, 1]"
    with right(2) show "i = 1"
      by (cases "i = 0") (auto simp add: cutNode_eval)
  qed
  from ChooseDescentNode_partition_unique_child [OF pt0 in0 one0, of False]
  obtain i where "i < NumChildren cutNode"
    and "fst (ChooseDescentNode False cutNode 0) = Inr i"
    and "Contains (ChildOuterBound cutNode i) [2, 1]"
    by blast
  with left(2) have r0: "fst (ChooseDescentNode False cutNode 0) = Inr 0"
    by (cases "i = 0"; cases "i = 1") (auto simp add: cutNode_eval)
  from ChooseDescentNode_partition_unique_child [OF pt1 in1 one1, of False]
  obtain k where "k < NumChildren cutNode"
    and "fst (ChooseDescentNode False cutNode 1) = Inr k"
    and "Contains (ChildOuterBound cutNode k) [7, 1]"
    by blast
  with right(2) have r1: "fst (ChooseDescentNode False cutNode 1) = Inr 1"
    by (cases "k = 0"; cases "k = 1") (auto simp add: cutNode_eval)
  from r0 r1 left right show ?thesis by simp
qed

text \<open>
  Claim C5 (first match). If the outer bound of some child contains the point, the scan
  that starts at index 0 returns the first index whose outer bound contains it: the
  child at the returned index contains the point and no child before it does. The
  containment test is the closed-interval test in every dimension.
\<close>

theorem ChooseDescentNode_first_containing_child:
  assumes "col (Dataset node) point = Some v"
    and "\<exists>i<NumChildren node. Contains (ChildOuterBound node i) v"
  shows "(\<exists>i<NumChildren node.
            fst (ChooseDescentNode ndebug node point) = Inr i \<and>
            Contains (ChildOuterBound node i) v \<and>
            (\<forall>j<i. \<not> Contains (ChildOuterBound node j) v)) \<and>
         (\<forall>i<NumChildren node.
            Contains (ChildOuterBound node i) v \<longleftrightarrow>
              length (ChildOuterBound node i) = length v \<and>
              (\<forall>d<length v. Lo (ChildOuterBound node i ! d) \<le> v ! d \<and>
                             v ! d \<le> Hi (ChildOuterBound node i ! d)))"
proof
  define P where "P i \<longleftrightarrow> i < NumChildren node \<and> Contains (ChildOuterBound node i) v" for i
  define i where "i = (LEAST i. P i)"
  from assms(2) have "\<exists>i. P i" by (auto simp add: P_def)
  then have Pi: "P i" unfolding i_def by (metis LeastI)
  have least: "\<not> P j" if "j < i" for j
    using that unfolding i_def by (rule not_less_Least)
  have before: "\<forall>j. 0 \<le> j \<and> j < i \<longrightarrow> \<not> Contains (ChildOuterBound node j) v"
    using least Pi unfolding P_def by (metis less_trans)
  with assms(1) Pi have "ChooseDescentNode_loop ndebug node point 0 = (Inr i, node)"
    unfolding P_def by (intro ChooseDescentNode_loop_found) auto
  then have "fst (ChooseDescentNode ndebug node point) = Inr i"
    by (simp add: ChooseDescentNode_def)
  with Pi before show "\<exists>i<NumChildren node.
            fst (ChooseDescentNode ndebug node point) = Inr i \<and>
            Contains (ChildOuterBound node i) v \<and>
            (\<forall>j<i. \<not> Contains (ChildOuterBound node j) v)"
    unfolding P_def by blast
next
  show "\<forall>i<NumChildren node.
            Contains (ChildOuterBound node i) v \<longleftrightarrow>
              length (ChildOuterBound node i) = length v \<and>
              (\<forall>d<length v. Lo (ChildOuterBound node i ! d) \<le> v ! d \<and>
                             v ! d \<le> Hi (ChildOuterBound node i ! d))"
    by (simp add: Contains_closed_intervals)
qed

text \<open>
  In \<open>overlapNode\<close> the outer bounds of children 1 and 2 both contain \<open>(1, 1)\<close> and that of
  child 0 does not; the scan returns 1.
\<close>

theorem ChooseDescentNode_first_containing_child_witness:
  "fst (ChooseDescentNode False overlapNode 0) = Inr 1 \<and>
   \<not> Contains (ChildOuterBound overlapNode 0) [1, 1] \<and>
   Contains (ChildOuterBound overlapNode 1) [1, 1] \<and>
   Contains (ChildOuterBound overlapNode 2) [1, 1]"
proof -
  have pt: "col (Dataset overlapNode) 0 = Some [1, 1]"
    by (simp add: overlapNode_eval)
  have c0: "\<not> Contains (ChildOuterBound overlapNode 0) [1, 1]"
    and c1: "Contains (ChildOuterBound overlapNode 1) [1, 1]"
    and c2: "Contains (ChildOuterBound overlapNode 2) [1, 1]"
    by (simp_all add: overlapNode_eval Contains_def)
  have "(1::nat) < NumChildren overlapNode"
    by (simp add: overlapNode_eval)
  with c1 have some: "\<exists>i<NumChildren overlapNode. Contains (ChildOuterBound overlapNode i) [1, 1]"
    by blast
  from ChooseDescentNode_first_containing_child [OF pt some, of False]
  obtain i where "fst (ChooseDescentNode False overlapNode 0) = Inr i"
    and hit: "Contains (ChildOuterBound overlapNode i) [1, 1]"
    and first: "\<forall>j<i. \<not> Contains (ChildOuterBound overlapNode j) [1, 1]"
    by blast
  moreover have "i = 1"
  proof -
    from first c1 have "\<not> 1 < i" by blast
    moreover have "i \<noteq> 0"
    proof
      assume "i = 0"
      with hit c0 show False by simp
    qed
    ultimately show ?thesis by simp
  qed
  ultimately show ?thesis using c0 c1 c2 by simp
qed

text \<open>
  Claim C8 (determinism and purity). The node after the call is the node before it
  (children and dataset are part of the node), and the returned value is a function of
  the children's outer bounds and of the point's coordinates alone: two calls that
  agree on these, on whatever nodes and point indices, return the same value. Two
  calls with identical inputs are the special case.
\<close>

theorem ChooseDescentNode_pure:
  "snd (ChooseDescentNode ndebug node point) = node \<and>
   (map (\<lambda>c. OuterBound (AuxiliaryInfo c)) (children node) =
      map (\<lambda>c. OuterBound (AuxiliaryInfo c)) (children node') \<and>
    col (Dataset node) point = col (Dataset node') point' \<longrightarrow>
    fst (ChooseDescentNode ndebug node point) = fst (ChooseDescentNode ndebug node' point'))"
  unfolding ChooseDescentNode_def
  using ChooseDescentNode_loop_node ChooseDescentNode_loop_reads by blast

text \<open>
  \<open>disjointNode\<close> and \<open>disjointNode'\<close> are different trees over different datasets, with the
  same outer bounds and the same coordinates at the points 1 and 3.
\<close>

theorem ChooseDescentNode_pure_witness:
  "snd (ChooseDescentNode False disjointNode 1) = disjointNode \<and>
   disjointNode \<noteq> disjointNode' \<and>
   fst (ChooseDescentNode False disjointNode 1) = fst (ChooseDescentNode False disjointNode' 3)"
proof -
  have "map (\<lambda>c. OuterBound (AuxiliaryInfo c)) (children disjointNode) =
        map (\<lambda>c. OuterBound (AuxiliaryInfo c)) (children disjointNode')"
    by (simp add: disjointNode_def disjointNode'_def leaf_def)
  moreover have "col (Dataset disjointNode) 1 = col (Dataset disjointNode') 3"
    by (simp add: disjointNode_def disjointNode'_def col_def points2d_def)
  moreover have "disjointNode \<noteq> disjointNode'"
    by (simp add: disjointNode_def disjointNode'_def)
  ultimately show ?thesis
    using ChooseDescentNode_pure [of False disjointNode 1 disjointNode' 3] by blast
qed

section \<open>Descent: no child contains the point\<close>

text \<open>
  Claim C3 says that the fall-through of the scan always aborts and never returns a
  fallback index. With \<open>NDEBUG\<close> defined the assertion is compiled out and the statement
  after it, \<open>return 0\<close>, runs: no outer bound of \<open>overlapNode\<close> contains the point \<open>(4, 9)\<close>,
  and the call returns child 0.
\<close>

theorem ChooseDescentNode_ndebug_fallback_counterexample:
  "NumChildren overlapNode = 3 \<and>
   col (Dataset overlapNode) 2 = Some [4, 9] \<and>
   \<not> Contains (ChildOuterBound overlapNode 0) [4, 9] \<and>
   \<not> Contains (ChildOuterBound overlapNode 1) [4, 9] \<and>
   \<not> Contains (ChildOuterBound overlapNode 2) [4, 9] \<and>
   fst (ChooseDescentNode True overlapNode 2) = Inr 0"
  by (simp add: overlapNode_def NumChildren_def col_def points2d_def ChildOuterBound_def
        Child_def leaf_def Contains_def ChooseDescentNode_def ChooseDescentNode_loop.simps
        cpp_assert_def)

text \<open>
  Claim C3, amended: in a build with assertions enabled (\<open>NDEBUG\<close> not defined), for every
  node and valid point such that no child's outer bound contains the point (a node
  without children included), \<open>ChooseDescentNode\<close> ends in the assertion failure and
  returns no child index.
\<close>

theorem ChooseDescentNode_assertion_failure:
  assumes "\<forall>i<NumChildren node.
             \<exists>v. col (Dataset node) point = Some v \<and> \<not> Contains (ChildOuterBound node i) v"
  shows "fst (ChooseDescentNode False node point) = Inl AssertionFailed"
proof -
  from assms have "ChooseDescentNode_loop False node point 0 = (Inl AssertionFailed, node)"
    by (subst ChooseDescentNode_loop_fall_through) auto
  then show ?thesis
    by (simp add: ChooseDescentNode_def)
qed

theorem ChooseDescentNode_assertion_failure_witness:
  "fst (ChooseDescentNode False overlapNode 2) = Inl AssertionFailed"
proof -
  have "\<forall>i<NumChildren overlapNode.
          \<exists>v. col (Dataset overlapNode) 2 = Some v \<and> \<not> Contains (ChildOuterBound overlapNode i) v"
    by (auto simp add: overlapNode_eval less_3_cases Contains_def)
  then show ?thesis
    by (rule ChooseDescentNode_assertion_failure)
qed

text \<open>
  Claim C10 (assertions compiled out). With \<open>NDEBUG\<close> defined both overloads return:
  the point overload returns 0 whenever no child's outer bound contains the point, in
  particular for every node without children (whatever the point index), and the
  subtree overload returns 0 for all arguments.
\<close>

theorem ChooseDescentNode_ndebug_returns_zero:
  "((\<forall>i<NumChildren node.
       \<exists>v. col (Dataset node) point = Some v \<and> \<not> Contains (ChildOuterBound node i) v) \<longrightarrow>
    fst (ChooseDescentNode True node point) = Inr 0) \<and>
   (NumChildren node = 0 \<longrightarrow> fst (ChooseDescentNode True node point) = Inr 0) \<and>
   ChooseDescentNode_subtree True node' insertedNode = Inr 0"
proof (intro conjI impI)
  assume "\<forall>i<NumChildren node.
       \<exists>v. col (Dataset node) point = Some v \<and> \<not> Contains (ChildOuterBound node i) v"
  then have "ChooseDescentNode_loop True node point 0 = (Inr 0, node)"
    by (subst ChooseDescentNode_loop_fall_through) auto
  then show "fst (ChooseDescentNode True node point) = Inr 0"
    by (simp add: ChooseDescentNode_def)
next
  assume "NumChildren node = 0"
  then have "ChooseDescentNode_loop True node point 0 = (Inr 0, node)"
    by (subst ChooseDescentNode_loop_fall_through) auto
  then show "fst (ChooseDescentNode True node point) = Inr 0"
    by (simp add: ChooseDescentNode_def)
next
  show "ChooseDescentNode_subtree True node' insertedNode = Inr 0"
    by (simp add: ChooseDescentNode_subtree_def cpp_assert_def)
qed

theorem ChooseDescentNode_ndebug_returns_zero_witness:
  "fst (ChooseDescentNode True disjointNode 2) = Inr 0 \<and>
   NumChildren emptyNode = 0 \<and>
   fst (ChooseDescentNode True emptyNode 5) = Inr 0 \<and>
   ChooseDescentNode_subtree True disjointNode emptyNode = Inr 0"
proof -
  have col2: "col (Dataset disjointNode) 2 = Some [4, 9]"
    by (simp add: disjointNode_def col_def points2d_def)
  have miss: "\<forall>i<NumChildren disjointNode.
      \<exists>v. col (Dataset disjointNode) 2 = Some v \<and> \<not> Contains (ChildOuterBound disjointNode i) v"
    by (auto simp add: col2 disjointNode_eval less_2_cases Contains_def)
  have none: "NumChildren emptyNode = 0"
    by (simp add: emptyNode_def leaf_def NumChildren_def)
  from miss none
    ChooseDescentNode_ndebug_returns_zero [of disjointNode 2 disjointNode emptyNode]
    ChooseDescentNode_ndebug_returns_zero [of emptyNode 5 disjointNode emptyNode]
  show ?thesis by blast
qed

text \<open>
  Claim C6 says that the subtree overload always fails by assertion and never returns
  an index. With \<open>NDEBUG\<close> defined it returns 0.
\<close>

theorem ChooseDescentNode_subtree_ndebug_counterexample:
  "ChooseDescentNode_subtree True overlapNode emptyNode = Inr 0"
  by (simp add: ChooseDescentNode_subtree_def cpp_assert_def)

text \<open>
  Claim C6, amended: in a build with assertions enabled (\<open>NDEBUG\<close> not defined), the
  subtree overload ends in the assertion failure for every pair of arguments and
  returns no child index.
\<close>

theorem ChooseDescentNode_subtree_assertion_failure:
  "ChooseDescentNode_subtree False node insertedNode = Inl AssertionFailed"
  by (simp add: ChooseDescentNode_subtree_def cpp_assert_def)

section \<open>Midpoint split\<close>

text \<open>
  Claim C2 (dimension and split value). If some dimension of the bound has a strictly
  positive extent, and dataset and point indices are not empty, \<open>SplitSpace\<close> returns
  \<open>true\<close> and the hyperplane is keyed to a dimension whose extent is maximal, with the
  midpoint \<open>(min_d + max_d) / 2\<close> of that dimension as split value.
\<close>

theorem SplitSpace_widest_midpoint:
  assumes "\<exists>d<length (arg_bound a). 0 < extent (arg_bound a ! d)"
    and "arg_data a \<noteq> []"
    and "arg_points a \<noteq> []"
  shows "\<exists>d<length (arg_bound a).
           (\<forall>d'<length (arg_bound a). extent (arg_bound a ! d') \<le> extent (arg_bound a ! d)) \<and>
           SplitSpace a =
             (True, a\<lparr>arg_hyp :=
                Hyperplane d ((Lo (arg_bound a ! d) + Hi (arg_bound a ! d)) / 2)\<rparr>)"
proof -
  from assms(1) have "arg_bound a \<noteq> []" by auto
  then obtain d where d: "widest (arg_bound a) = Some d"
    using widest_exists by blast
  then have max: "d < length (arg_bound a)"
    "\<forall>d'<length (arg_bound a). extent (arg_bound a ! d') \<le> extent (arg_bound a ! d)"
    by (simp_all add: widest_Some_iff)
  with assms(1) have "0 < extent (arg_bound a ! d)"
    by (metis less_le_trans)
  then have "extent (arg_bound a ! d) \<noteq> 0" by simp
  with d max show ?thesis
    using SplitSpace_success by blast
qed

text \<open>
  For the bound with extents \<open>(0,10), (0,2), (0,5)\<close> this is dimension 0 and split value 5.
\<close>

theorem SplitSpace_widest_midpoint_witness:
  "SplitSpace (splitArgs [RangeType 0 10, RangeType 0 2, RangeType 0 5] points3d [0, 1]) =
     (True, (splitArgs [RangeType 0 10, RangeType 0 2, RangeType 0 5] points3d [0, 1])
               \<lparr>arg_hyp := Hyperplane 0 5\<rparr>)"
proof -
  let ?b = "[RangeType 0 10, RangeType 0 2, RangeType 0 5]"
  let ?a = "splitArgs ?b points3d [0, 1]"
  have b: "arg_bound ?a = ?b"
    by (simp add: splitArgs_def)
  have "(0::nat) < length ?b \<and> 0 < extent (?b ! 0)"
    by (simp add: extent_def)
  then have pos: "\<exists>d<length (arg_bound ?a). 0 < extent (arg_bound ?a ! d)"
    unfolding b by blast
  have ds: "arg_data ?a \<noteq> []" and ps: "arg_points ?a \<noteq> []"
    by (simp_all add: splitArgs_def points3d_def)
  from SplitSpace_widest_midpoint [OF pos ds ps]
  obtain d where d: "d < length ?b"
    and max: "\<forall>d'<length ?b. extent (?b ! d') \<le> extent (?b ! d)"
    and res: "SplitSpace ?a = (True, ?a\<lparr>arg_hyp := Hyperplane d ((Lo (?b ! d) + Hi (?b ! d)) / 2)\<rparr>)"
    unfolding b by blast
  have "(0::nat) < length ?b" by simp
  with max have "extent (?b ! 0) \<le> extent (?b ! d)"
    by blast
  moreover from d have "d = 0 \<or> d = Suc 0 \<or> d = 2"
    by (auto simp add: less_Suc_eq numeral_2_eq_2)
  ultimately have "d = 0"
    by (auto simp add: extent_def)
  with res show ?thesis by simp
qed

text \<open>
  Claim C4 (degenerate bound). If the widest extent of the bound is zero (some dimension
  has extent zero and none has more), \<open>SplitSpace\<close> returns the flag \<open>false\<close>; nothing is
  stated about the hyperplane. The call returns normally: the flag is its result.
\<close>

theorem SplitSpace_degenerate:
  assumes "\<exists>d<length (arg_bound a). extent (arg_bound a ! d) = 0"
    and "\<forall>d<length (arg_bound a). extent (arg_bound a ! d) \<le> 0"
  shows "fst (SplitSpace a) = False"
proof (cases "widest (arg_bound a)")
  case None
  then show ?thesis by (simp add: SplitSpace_def)
next
  case (Some d)
  then have "d < length (arg_bound a)"
    and "\<forall>d'<length (arg_bound a). extent (arg_bound a ! d') \<le> extent (arg_bound a ! d)"
    by (simp_all add: widest_Some_iff)
  with assms have "extent (arg_bound a ! d) = 0"
    by (metis order_antisym)
  with Some show ?thesis by (simp add: SplitSpace_def)
qed

text \<open>
  The single-point bound \<open>(3,3), (4,4)\<close>.
\<close>

theorem SplitSpace_degenerate_witness:
  "fst (SplitSpace (splitArgs [RangeType 3 3, RangeType 4 4] points2d [0, 1, 2])) = False"
proof -
  let ?a = "splitArgs [RangeType 3 3, RangeType 4 4] points2d [0, 1, 2]"
  have b: "arg_bound ?a = [RangeType 3 3, RangeType 4 4]"
    by (simp add: splitArgs_def)
  have "(0::nat) < length [RangeType 3 3, RangeType 4 4] \<and>
        extent ([RangeType 3 3, RangeType 4 4] ! 0) = 0"
    by (simp add: extent_def)
  then have zero: "\<exists>d<length (arg_bound ?a). extent (arg_bound ?a ! d) = 0"
    unfolding b by blast
  have "extent ([RangeType 3 3, RangeType 4 4] ! d) \<le> 0" if "d < 2" for d
    using that by (auto simp add: less_2_cases extent_def)
  then have all: "\<forall>d<length (arg_bound ?a). extent (arg_bound ?a ! d) \<le> 0"
    unfolding b by simp
  from zero all show ?thesis
    by (rule SplitSpace_degenerate)
qed

text \<open>
  Claim C7 (tie-break). If two different dimensions \<open>d1\<close> and \<open>d2\<close> share the maximal
  extent, the selected dimension is the lowest-indexed dimension of maximal extent: it
  is not above \<open>d1\<close> or \<open>d2\<close>, its extent is the maximal one and every dimension before it
  is strictly narrower. Whenever that extent is not zero, the hyperplane returned is
  keyed to this dimension.
\<close>

theorem SplitSpace_tie_lowest_index:
  assumes "d1 < length (arg_bound a)" and "d2 < length (arg_bound a)" and "d1 \<noteq> d2"
    and "extent (arg_bound a ! d1) = extent (arg_bound a ! d2)"
    and "\<forall>d<length (arg_bound a). extent (arg_bound a ! d) \<le> extent (arg_bound a ! d1)"
  shows "\<exists>d. widest (arg_bound a) = Some d \<and> d \<le> d1 \<and> d \<le> d2 \<and>
              extent (arg_bound a ! d) = extent (arg_bound a ! d1) \<and>
              (\<forall>d'<d. extent (arg_bound a ! d') < extent (arg_bound a ! d)) \<and>
              (extent (arg_bound a ! d1) \<noteq> 0 \<longrightarrow>
                 SplitSpace a = (True, a\<lparr>arg_hyp :=
                   Hyperplane d ((Lo (arg_bound a ! d) + Hi (arg_bound a ! d)) / 2)\<rparr>))"
proof -
  from assms(1) have "arg_bound a \<noteq> []" by auto
  then obtain d where d: "widest (arg_bound a) = Some d"
    using widest_exists by blast
  then have len: "d < length (arg_bound a)"
    and max: "\<forall>d'<length (arg_bound a). extent (arg_bound a ! d') \<le> extent (arg_bound a ! d)"
    and first: "\<forall>d'<d. extent (arg_bound a ! d') < extent (arg_bound a ! d)"
    by (simp_all add: widest_Some_iff)
  from len max assms(1,5) have eq: "extent (arg_bound a ! d) = extent (arg_bound a ! d1)"
    by (metis order_antisym)
  have "d \<le> d1"
    using first eq by (metis less_irrefl not_le)
  moreover have "d \<le> d2"
    using first eq assms(4) by (metis less_irrefl not_le)
  moreover have "SplitSpace a = (True, a\<lparr>arg_hyp :=
      Hyperplane d ((Lo (arg_bound a ! d) + Hi (arg_bound a ! d)) / 2)\<rparr>)"
    if "extent (arg_bound a ! d1) \<noteq> 0"
    using that d eq by (intro SplitSpace_success) simp_all
  ultimately show ?thesis
    using d eq first by blast
qed

text \<open>
  For the bound \<open>(0,10), (0,10)\<close> the selected dimension is 0.
\<close>

theorem SplitSpace_tie_lowest_index_witness:
  "widest [RangeType 0 10, RangeType 0 10] = Some 0 \<and>
   SplitSpace (splitArgs [RangeType 0 10, RangeType 0 10] points2d [0, 1, 2]) =
     (True, (splitArgs [RangeType 0 10, RangeType 0 10] points2d [0, 1, 2])
               \<lparr>arg_hyp := Hyperplane 0 5\<rparr>)"
proof -
  let ?b = "[RangeType 0 10, RangeType 0 10]"
  let ?a = "splitArgs ?b points2d [0, 1, 2]"
  have b: "arg_bound ?a = ?b"
    by (simp add: splitArgs_def)
  have ext: "extent (?b ! d) = 10" if "d < 2" for d
    using that by (auto simp add: less_2_cases extent_def)
  have h1: "0 < length (arg_bound ?a)" and h2: "1 < length (arg_bound ?a)"
    and h3: "(0::nat) \<noteq> 1"
    and h4: "extent (arg_bound ?a ! 0) = extent (arg_bound ?a ! 1)"
    unfolding b by (simp_all add: extent_def)
  have h5: "\<forall>d<length (arg_bound ?a). extent (arg_bound ?a ! d) \<le> extent (arg_bound ?a ! 0)"
  proof (intro allI impI)
    fix d assume "d < length (arg_bound ?a)"
    then have "d < 2" unfolding b by simp
    from ext [OF this] ext [of 0]
    show "extent (arg_bound ?a ! d) \<le> extent (arg_bound ?a ! 0)"
      unfolding b by simp
  qed
  from SplitSpace_tie_lowest_index [OF h1 h2 h3 h4 h5]
  obtain d where "widest ?b = Some d" and "d \<le> 0"
    and "extent (?b ! 0) \<noteq> 0 \<longrightarrow>
           SplitSpace ?a = (True, ?a\<lparr>arg_hyp := Hyperplane d ((Lo (?b ! d) + Hi (?b ! d)) / 2)\<rparr>)"
    unfolding b by blast
  then show ?thesis
    by (simp add: extent_def)
qed

text \<open>
  Claim C9 (frame). After the call the point indices are what they were before it, and
  so are the dataset and the bound: only the hyperplane output can differ.
\<close>

theorem SplitSpace_points_unchanged:
  "arg_points (snd (SplitSpace a)) = arg_points a \<and>
   arg_data (snd (SplitSpace a)) = arg_data a \<and>
   arg_bound (snd (SplitSpace a)) = arg_bound a"
  by (simp add: SplitSpace_def split: option.splits)

end
